theory Spec2Isabelle
  imports Main "HOL-Library.Sublist"
begin

section \<open>Retention of snapshots (\<^verbatim>\<open>closest\<close>, \<^verbatim>\<open>prune_snapshots\<close>)\<close>

subsection \<open>The tiers and their durations\<close>

text \<open>
  The keys of the dictionary \<^verbatim>\<open>time_intervals\<close> (lines 15--19) and its values in seconds.
\<close>

datatype tier = Day | Week | Month

fun time_intervals :: "tier \<Rightarrow> int" where
  "time_intervals Day = 60 * 60 * 24"
| "time_intervals Week = 60 * 60 * 24 * 7"
| "time_intervals Month = 60 * 60 * 24 * 7 * 4"

subsection \<open>\<^verbatim>\<open>closest\<close> (lines 26--37)\<close>

text \<open>
  The \<^verbatim>\<open>for\<close> loop of \<^verbatim>\<open>closest\<close> over the list, with its two mutable variables
  \<^verbatim>\<open>best\<close> and \<^verbatim>\<open>best_distance\<close> passed along. Timestamps are Python integers.
\<close>

fun closest_loop :: "int \<Rightarrow> int list \<Rightarrow> int \<times> int \<Rightarrow> int \<times> int" where
  "closest_loop target [] (best, best_distance) = (best, best_distance)"
| "closest_loop target (current # rest) (best, best_distance) =
     (let distance = \<bar>target - current\<bar>
      in if distance < best_distance
         then closest_loop target rest (current, distance)
         else closest_loop target rest (best, best_distance))"

text \<open>
  \<^verbatim>\<open>best = 0\<close>, \<^verbatim>\<open>best_distance = target\<close>, the loop, and the final test
  \<^verbatim>\<open>if best != 0: return best\<close>; falling off the end returns \<^verbatim>\<open>None\<close>.
\<close>

definition closest :: "int \<Rightarrow> int list \<Rightarrow> int option" where
  "closest target list =
     (let (best, best_distance) = closest_loop target list (0, target)
      in if best \<noteq> 0 then Some best else None)"

subsection \<open>The selection loop of \<^verbatim>\<open>prune_snapshots\<close> (lines 127--154)\<close>

text \<open>
  Lines 131--137 build \<^verbatim>\<open>wanted_snapshots\<close> from the three local counts
  \<^verbatim>\<open>daily\<close>, \<^verbatim>\<open>weekly\<close> and \<^verbatim>\<open>monthly\<close>, which are parameters here.
\<close>

definition wanted_snapshots :: "nat \<Rightarrow> nat \<Rightarrow> nat \<Rightarrow> tier list" where
  "wanted_snapshots daily weekly monthly =
     replicate daily Day @ replicate weekly Week @ replicate monthly Month"

text \<open>
  The loop of lines 147--154. The variable \<^verbatim>\<open>last_kept_timestamp\<close> is assigned once,
  before the loop (line 145); the loop body reads it and never assigns it, so every
  iteration sees the same value. \<^verbatim>\<open>actual_timestamps.remove\<close> deletes the first
  occurrence, as \<^const>\<open>remove1\<close> does; the value removed was returned by \<^verbatim>\<open>closest\<close> from
  that list, so the \<^verbatim>\<open>ValueError\<close> of a missing value cannot arise (lemma
  \<open>closest_in_pool\<close> below). The test \<^verbatim>\<open>not closest_timestamp\<close> holds for \<^verbatim>\<open>None\<close>
  (and for 0, which \<^verbatim>\<open>closest\<close> never returns).
\<close>

fun keep_loop :: "int \<Rightarrow> tier list \<Rightarrow> int list \<Rightarrow> int list \<Rightarrow> int list" where
  "keep_loop last_kept_timestamp [] actual_timestamps keep_timestamps = keep_timestamps"
| "keep_loop last_kept_timestamp (next_snapshot # wanted) actual_timestamps keep_timestamps =
     (let target_timestamp = last_kept_timestamp - time_intervals next_snapshot
      in case closest target_timestamp actual_timestamps of
           None \<Rightarrow> keep_timestamps
         | Some closest_timestamp \<Rightarrow>
             (if closest_timestamp = 0 then keep_timestamps
              else keep_loop last_kept_timestamp wanted
                     (remove1 closest_timestamp actual_timestamps)
                     (keep_timestamps @ [closest_timestamp])))"

text \<open>
  Lines 145--154 for given tier counts, on the list of timestamps parsed from the
  snapshot names (lines 139--143).
\<close>

definition select_keep :: "nat \<Rightarrow> nat \<Rightarrow> nat \<Rightarrow> int \<Rightarrow> int list \<Rightarrow> int list" where
  "select_keep daily weekly monthly now actual_timestamps =
     keep_loop now (wanted_snapshots daily weekly monthly) actual_timestamps []"

text \<open>The counts of lines 127--129.\<close>

definition keep_timestamps :: "int \<Rightarrow> int list \<Rightarrow> int list" where
  "keep_timestamps now actual_timestamps = select_keep 7 4 6 now actual_timestamps"

text \<open>
  Lines 156--161: the timestamps of the snapshots that are deleted, and of those that
  stay, in the order of the listing.
\<close>

definition pruned :: "int \<Rightarrow> int list \<Rightarrow> int list" where
  "pruned now ts = filter (\<lambda>t. t \<notin> set (keep_timestamps now ts)) ts"

definition surviving :: "int \<Rightarrow> int list \<Rightarrow> int list" where
  "surviving now ts = filter (\<lambda>t. t \<in> set (keep_timestamps now ts)) ts"

section \<open>The run: snapshot, backup, prune\<close>

subsection \<open>Errors, the system outside, the data of a run\<close>

text \<open>
  The exceptions that the program raises or lets escape: the two \<^verbatim>\<open>RuntimeError\<close>s of
  lines 46 and 167 and the one of line 195, the \<^verbatim>\<open>CalledProcessError\<close> of
  \<^verbatim>\<open>run(..., check=True)\<close>, an \<^verbatim>\<open>OSError\<close> when a process cannot be started, the
  \<^verbatim>\<open>IndexError\<close> of line 55, the \<^verbatim>\<open>ValueError\<close> of \<^verbatim>\<open>int(...)\<close> and the
  \<^verbatim>\<open>KeyError\<close> of a dictionary key that is not there. Nothing catches any of them.
\<close>

datatype error =
    RuntimeError string
  | CalledProcessError "string list" int
  | OSError
  | IndexError
  | ValueError
  | KeyError string

text \<open>An entry of \<^verbatim>\<open>psutil.disk_partitions()\<close>, with the two fields the program reads.\<close>

record partition =
  partition_mountpoint :: string
  partition_fstype :: string

text \<open>
  One call of \<^verbatim>\<open>subprocess.run\<close>: the command, the working directory when one is
  given, and the variable \<^verbatim>\<open>BORG_REPO\<close> when the call adds it to the environment.
  What comes back is the return code and, where the output is piped, its lines.
\<close>

record invocation =
  command :: "string list"
  cwd :: "string option"
  BORG_REPO :: "string option"

record completed_process =
  returncode :: int
  stdout :: "string list"

text \<open>
  What the program asks of the operating system and of the Python library. These are
  parameters of the model: the mounted partitions, \<^verbatim>\<open>os.path.ismount\<close>,
  \<^verbatim>\<open>os.path.realpath\<close>, \<^verbatim>\<open>os.listdir\<close>, the outcome of starting a process
  (\<open>Inl\<close> when it cannot be started), whether a regular expression matches at the start
  of a string (\<^verbatim>\<open>re.compile(p).match\<close>), and
  \<^verbatim>\<open>int(generic_subvolume_regex.sub(r'\1', s))\<close> of lines 141 and 157
  (\<open>None\<close> when \<^verbatim>\<open>int\<close> raises). Each answer depends on the question alone, not
  on what the run has done before.
\<close>

record system =
  disk_partitions :: "partition list"
  is_mountpoint :: "string \<Rightarrow> bool"
  realpath :: "string \<Rightarrow> string"
  listdir :: "string \<Rightarrow> string list"
  run :: "invocation \<Rightarrow> error + completed_process"
  re_match :: "string \<Rightarrow> string \<Rightarrow> bool"
  int_of_suffix :: "string \<Rightarrow> int option"

text \<open>
  The dictionary of one backup target. The configuration file gives \<^verbatim>\<open>mountpoint\<close>,
  \<^verbatim>\<open>repository\<close> and possibly \<^verbatim>\<open>excludes\<close>; the first loop of the main program
  writes the other keys. A key that is not in the dictionary is \<open>None\<close>.
\<close>

record backup_config =
  mountpoint :: string
  repository :: string
  excludes :: "string list option"
  fstype :: "string option"
  borg :: "string option"
  nice :: "bool option"
  subvolume :: "string option"
  subvolume_name :: "string option"
  snapshot :: "string option"

text \<open>
  The parsed command line: \<^verbatim>\<open>--backup-only\<close> after the split at commas (\<open>None\<close> when
  the option is absent or empty), \<^verbatim>\<open>--snapshot-dir\<close>, \<^verbatim>\<open>--with-borg\<close>,
  \<^verbatim>\<open>--with-btrfs\<close>, the truth value of \<^verbatim>\<open>--nice\<close>, and the directory of the
  configuration file (\<^verbatim>\<open>backup_dir\<close>, line 190).
\<close>

record args =
  arg_backup_only :: "string list option"
  arg_snapshot_dir :: string
  arg_with_borg :: string
  arg_with_btrfs :: string
  arg_nice :: bool
  arg_backup_dir :: string

text \<open>
  A line logged with \<^verbatim>\<open>warn\<close>. The line of line 100 prints a Python list and a number;
  it is kept as these two values.
\<close>

datatype warning = Text string | Exited "string list" int

text \<open>
  What a run leaves behind: the list \<^verbatim>\<open>messages\<close> (line 203), the lines logged with
  \<^verbatim>\<open>warn\<close>, and the processes started, each in order. Lines logged with \<^verbatim>\<open>info\<close>
  and \<^verbatim>\<open>debug\<close> are not kept.
\<close>

record state =
  messages :: "string list"
  warnings :: "warning list"
  calls :: "invocation list"

text \<open>
  A statement of the program takes the state and returns either an exception or a value,
  together with the state at that point: what was done before an exception stays done.
\<close>

type_synonym 'a exec = "state \<Rightarrow> (error + 'a) \<times> state"

definition bind :: "'a exec \<Rightarrow> ('a \<Rightarrow> 'b exec) \<Rightarrow> 'b exec" where
  "bind m f s = (case m s of (Inl e, s') \<Rightarrow> (Inl e, s') | (Inr a, s') \<Rightarrow> f a s')"

definition return :: "'a \<Rightarrow> 'a exec" where
  "return a s = (Inr a, s)"

definition raise :: "error \<Rightarrow> 'a exec" where
  "raise e s = (Inl e, s)"

definition warn :: "warning \<Rightarrow> unit exec" where
  "warn w s = (Inr (), s\<lparr>warnings := warnings s @ [w]\<rparr>)"

text \<open>\<^verbatim>\<open>messages += [m]\<close>.\<close>

definition record_message :: "string \<Rightarrow> unit exec" where
  "record_message m s = (Inr (), s\<lparr>messages := messages s @ [m]\<rparr>)"

text \<open>\<^verbatim>\<open>config[key]\<close>.\<close>

definition lookup :: "string \<Rightarrow> 'a option \<Rightarrow> 'a exec" where
  "lookup key v = (case v of None \<Rightarrow> raise (KeyError key) | Some a \<Rightarrow> return a)"

text \<open>\<^verbatim>\<open>subprocess.run\<close>, with or without \<^verbatim>\<open>check=True\<close>.\<close>

definition run_process :: "system \<Rightarrow> invocation \<Rightarrow> bool \<Rightarrow> completed_process exec" where
  "run_process sys invoc check s =
     (case run sys invoc of
        Inl e \<Rightarrow> Inl e
      | Inr result \<Rightarrow>
          if check \<and> returncode result \<noteq> 0
          then Inl (CalledProcessError (command invoc) (returncode result))
          else Inr result,
      s\<lparr>calls := calls s @ [invoc]\<rparr>)"

subsection \<open>Paths and numbers\<close>

text \<open>Line 23.\<close>

definition snapshotable_fstypes :: "string list" where
  "snapshotable_fstypes = [''btrfs'']"

text \<open>\<^verbatim>\<open>os.path.isabs\<close> and \<^verbatim>\<open>os.path.join\<close> with two arguments, on POSIX paths.\<close>

definition is_absolute :: "string \<Rightarrow> bool" where
  "is_absolute p = (case p of [] \<Rightarrow> False | c # _ \<Rightarrow> c = CHR ''/'')"

definition pathjoin :: "string \<Rightarrow> string \<Rightarrow> string" where
  "pathjoin a b =
     (if is_absolute b then b
      else if a = [] \<or> last a = CHR ''/'' then a @ b
      else a @ ''/'' @ b)"

text \<open>The decimal digits that \<^verbatim>\<open>"{}".format\<close> prints for an integer.\<close>

fun digits :: "nat \<Rightarrow> string" where
  "digits n = (if n < 10 then [char_of (48 + n)] else digits (n div 10) @ [char_of (48 + n mod 10)])"

definition str :: "int \<Rightarrow> string" where
  "str i = (if i < 0 then ''-'' @ digits (nat (- i)) else digits (nat i))"

subsection \<open>The functions of the program\<close>

text \<open>\<^verbatim>\<open>filesystem_type\<close> (lines 164--168).\<close>

definition filesystem_type :: "system \<Rightarrow> string \<Rightarrow> error + string" where
  "filesystem_type sys mp =
     (let partitions = filter (\<lambda>partition. partition_mountpoint partition = mp) (disk_partitions sys)
      in if \<not> length partitions = 1
         then Inl (RuntimeError (''Found more than one ('' @ str (int (length partitions))
                      @ '') matching partitions for mountpoint '' @ mp))
         else Inr (partition_fstype (partitions ! 0)))"

text \<open>\<^verbatim>\<open>subvolume_from_mountpoint\<close> (lines 44--55).\<close>

definition subvolume_from_mountpoint :: "system \<Rightarrow> string \<Rightarrow> string \<Rightarrow> string exec" where
  "subvolume_from_mountpoint sys btrfs mp =
     (if \<not> is_mountpoint sys mp then raise (RuntimeError (mp @ '' is not a mountpoint''))
      else bind (run_process sys \<lparr>command = [btrfs, ''subvolume'', ''show'', mp],
                                  cwd = None, BORG_REPO = None\<rparr> True)
             (\<lambda>btrfs_subvolume_show.
                case stdout btrfs_subvolume_show of
                  [] \<Rightarrow> raise IndexError
                | line # _ \<Rightarrow> return line))"

text \<open>\<^verbatim>\<open>subvolume_name_from_subvolume\<close> (lines 58--62).\<close>

definition subvolume_name_from_subvolume :: "string \<Rightarrow> string" where
  "subvolume_name_from_subvolume sv =
     (let name = map (\<lambda>c. if c = CHR ''/'' then CHR ''_'' else c) sv
      in if name = ''_'' then ''ROOT'' else name)"

text \<open>\<^verbatim>\<open>snapshot\<close> (lines 65--71); the name \<open>snapshot\<close> is the dictionary key here.\<close>

definition snapshot_fn :: "system \<Rightarrow> string \<Rightarrow> string \<Rightarrow> string \<Rightarrow> unit exec" where
  "snapshot_fn sys btrfs mp dir =
     bind (run_process sys \<lparr>command = [btrfs, ''subvolume'', ''snapshot'', ''-r'', mp, dir],
                             cwd = None, BORG_REPO = None\<rparr> True)
       (\<lambda>_. return ())"

text \<open>
  \<^verbatim>\<open>backup\<close> (lines 74--101). An argument \<^verbatim>\<open>snapshot_dir\<close> that is \<^verbatim>\<open>None\<close> or the
  empty string is replaced by the mount point, after a logged warning; \<open>backup_cwd\<close> is
  the directory in which borg is then started.
\<close>

definition niced :: "bool \<Rightarrow> string list \<Rightarrow> string list" where
  "niced n cmd = (if n then [''ionice'', ''-c3'', ''nice'', ''-n10''] @ cmd else cmd)"

definition backup_command :: "string \<Rightarrow> string list \<Rightarrow> bool \<Rightarrow> string list" where
  "backup_command b ex n =
     niced n ([b, ''--show-rc'', ''--show-version'', ''create'', ''--list'', ''--filter=E'',
               ''--stats'', ''--compression=lz4'', ''--one-file-system'', ''--exclude-caches'']
              @ map (\<lambda>v. ''--exclude='' @ v) ex
              @ [''::{hostname}-{utcnow}'', ''.''])"

definition not_snapshotted_warning :: "string \<Rightarrow> string" where
  "not_snapshotted_warning mp = ''Mountpoint '' @ mp @ '' not snapshotted, doing live backup!''"

definition backup_cwd :: "backup_config \<Rightarrow> string option \<Rightarrow> string" where
  "backup_cwd config snapshot_dir =
     (if snapshot_dir = None \<or> snapshot_dir = Some [] then mountpoint config else the snapshot_dir)"

definition backup :: "system \<Rightarrow> string \<Rightarrow> backup_config \<Rightarrow> string option \<Rightarrow> bool exec" where
  "backup sys name config snapshot_dir =
     bind (if snapshot_dir = None \<or> snapshot_dir = Some []
           then bind (warn (Text (not_snapshotted_warning (mountpoint config))))
                  (\<lambda>_. return (mountpoint config))
           else return (the snapshot_dir))
       (\<lambda>dir. bind (lookup ''borg'' (borg config))
       (\<lambda>b. bind (lookup ''excludes'' (excludes config))
       (\<lambda>ex. bind (lookup ''nice'' (nice config))
       (\<lambda>n. let command = backup_command b ex n
             in bind (run_process sys \<lparr>command = command, cwd = Some dir,
                                        BORG_REPO = Some (repository config)\<rparr> False)
       (\<lambda>result. bind (if returncode result \<noteq> 0
                         then warn (Exited command (returncode result)) else return ())
       (\<lambda>_. return (returncode result = 0)))))))"

text \<open>\<^verbatim>\<open>prune_backups\<close> (lines 104--121).\<close>

definition prune_command :: "string \<Rightarrow> bool \<Rightarrow> string list" where
  "prune_command b n =
     niced n [b, ''--show-rc'', ''--show-version'', ''prune'', ''--list'', ''--prefix={hostname}-'',
              ''--keep-daily=7'', ''--keep-weekly=4'', ''--keep-monthly=6'']"

definition prune_backups :: "system \<Rightarrow> string \<Rightarrow> backup_config \<Rightarrow> unit exec" where
  "prune_backups sys name config =
     bind (lookup ''borg'' (borg config))
       (\<lambda>b. bind (lookup ''nice'' (nice config))
       (\<lambda>n. bind (run_process sys \<lparr>command = prune_command b n, cwd = None,
                                    BORG_REPO = Some (repository config)\<rparr> True)
       (\<lambda>_. return ())))"

text \<open>
  \<^verbatim>\<open>prune_snapshots\<close> (lines 124--161): the loop of lines 140--143, the selection
  (\<^const>\<open>keep_timestamps\<close>), and the loop of lines 156--161.
\<close>

fun parse_timestamps :: "system \<Rightarrow> string list \<Rightarrow> int list exec" where
  "parse_timestamps sys [] = return []"
| "parse_timestamps sys (s # snapshots) =
     (case int_of_suffix sys s of
        None \<Rightarrow> raise ValueError
      | Some t \<Rightarrow> bind (parse_timestamps sys snapshots) (\<lambda>ts. return (t # ts)))"

fun delete_loop :: "system \<Rightarrow> string \<Rightarrow> string \<Rightarrow> int list \<Rightarrow> string list \<Rightarrow> unit exec" where
  "delete_loop sys btrfs dir keep [] = return ()"
| "delete_loop sys btrfs dir keep (s # snapshots) =
     (case int_of_suffix sys s of
        None \<Rightarrow> raise ValueError
      | Some t \<Rightarrow>
          bind (if t \<notin> set keep
                then bind (run_process sys \<lparr>command = [btrfs, ''subvolume'', ''delete'', pathjoin dir s],
                                             cwd = None, BORG_REPO = None\<rparr> True)
                       (\<lambda>_. return ())
                else return ())
            (\<lambda>_. delete_loop sys btrfs dir keep snapshots))"

definition prune_snapshots :: "system \<Rightarrow> string \<Rightarrow> int \<Rightarrow> string \<Rightarrow> string list \<Rightarrow> unit exec" where
  "prune_snapshots sys btrfs now dir snapshots =
     bind (parse_timestamps sys snapshots)
       (\<lambda>actual_timestamps.
          delete_loop sys btrfs dir (keep_timestamps now actual_timestamps) snapshots)"

subsection \<open>The main program (lines 171--252)\<close>

text \<open>The test of lines 209 and 232.\<close>

definition skipped :: "args \<Rightarrow> string \<Rightarrow> bool" where
  "skipped a name =
     (case arg_backup_only a of None \<Rightarrow> False | Some names \<Rightarrow> names \<noteq> [] \<and> name \<notin> set names)"

definition unsupported_message :: "string \<Rightarrow> string \<Rightarrow> string" where
  "unsupported_message ft mp =
     ''Filesystem type '' @ ft @ '' of mountpoint '' @ mp
       @ '' not supported, unable to create snapshot!''"

text \<open>The body of the first loop (lines 212--229), for one target.\<close>

definition phase1_target :: "system \<Rightarrow> args \<Rightarrow> int \<Rightarrow> string \<times> backup_config \<Rightarrow> backup_config exec" where
  "phase1_target sys a now target =
     (let (name, c0) = target;
          c1 = (if excludes c0 = None then c0\<lparr>excludes := Some []\<rparr> else c0);
          c2 = (if \<not> is_absolute (repository c1)
                then c1\<lparr>repository := realpath sys (pathjoin (arg_backup_dir a) (repository c1))\<rparr>
                else c1)
      in case filesystem_type sys (mountpoint c2) of
           Inl e \<Rightarrow> raise e
         | Inr ft \<Rightarrow>
             (let c3 = c2\<lparr>fstype := Some ft, borg := Some (arg_with_borg a), nice := Some (arg_nice a)\<rparr>
              in if ft \<in> set snapshotable_fstypes
                 then bind (subvolume_from_mountpoint sys (arg_with_btrfs a) (mountpoint c3))
                   (\<lambda>sv. let c4 = c3\<lparr>subvolume := Some sv\<rparr>;
                              c5 = c4\<lparr>subvolume_name := Some (subvolume_name_from_subvolume sv)\<rparr>;
                              c6 = c5\<lparr>snapshot := Some (pathjoin (arg_snapshot_dir a)
                                       (subvolume_name_from_subvolume sv @ ''-'' @ str now))\<rparr>
                          in bind (snapshot_fn sys (arg_with_btrfs a) (mountpoint c6)
                                     (pathjoin (arg_snapshot_dir a)
                                        (subvolume_name_from_subvolume sv @ ''-'' @ str now)))
                               (\<lambda>_. return c6))
                 else (let m = unsupported_message ft (mountpoint c3)
                       in bind (record_message m) (\<lambda>_. bind (warn (Text m)) (\<lambda>_. return c3)))))"

text \<open>The first loop (lines 208--229). It returns the dictionaries as it leaves them.\<close>

fun phase1 :: "system \<Rightarrow> args \<Rightarrow> int \<Rightarrow> (string \<times> backup_config) list
                \<Rightarrow> (string \<times> backup_config) list exec" where
  "phase1 sys a now [] = return []"
| "phase1 sys a now ((name, config) # targets) =
     (if skipped a name
      then bind (phase1 sys a now targets) (\<lambda>rest. return ((name, config) # rest))
      else bind (phase1_target sys a now (name, config))
             (\<lambda>config'. bind (phase1 sys a now targets)
                (\<lambda>rest. return ((name, config') # rest))))"

definition backup_failed_message :: "string \<Rightarrow> string" where
  "backup_failed_message name =
     ''Backup of '' @ name @ '' exited with non-zero exit code, check the logs!''"

text \<open>Lines 245--248.\<close>

definition prune_snapshots_step :: "system \<Rightarrow> args \<Rightarrow> int \<Rightarrow> backup_config \<Rightarrow> unit exec" where
  "prune_snapshots_step sys a now config =
     bind (lookup ''fstype'' (fstype config))
       (\<lambda>ft. if ft \<in> set snapshotable_fstypes
              then bind (lookup ''subvolume_name'' (subvolume_name config))
                (\<lambda>svn. let subvolume_regex = ''^'' @ svn @ ''-('' @ [CHR 0x5C] @ ''d+)$'';
                            snapshots = filter (re_match sys subvolume_regex)
                                          (listdir sys (arg_snapshot_dir a))
                        in prune_snapshots sys (arg_with_btrfs a) now (arg_snapshot_dir a) snapshots)
              else return ())"

text \<open>The body of the second loop (lines 235--248), for one target.\<close>

definition phase2_target :: "system \<Rightarrow> args \<Rightarrow> int \<Rightarrow> string \<times> backup_config \<Rightarrow> unit exec" where
  "phase2_target sys a now target =
     (let (name, config) = target
      in bind (backup sys name config (snapshot config))
        (\<lambda>ok. bind (if \<not> ok
                     then (let m = backup_failed_message name
                           in bind (record_message m) (\<lambda>_. warn (Text m)))
                     else return ())
        (\<lambda>_. bind (prune_backups sys name config)
        (\<lambda>_. prune_snapshots_step sys a now config))))"

text \<open>The second loop (lines 231--248).\<close>

fun phase2 :: "system \<Rightarrow> args \<Rightarrow> int \<Rightarrow> (string \<times> backup_config) list \<Rightarrow> unit exec" where
  "phase2 sys a now [] = return ()"
| "phase2 sys a now ((name, config) # targets) =
     (if skipped a name then phase2 sys a now targets
      else bind (phase2_target sys a now (name, config)) (\<lambda>_. phase2 sys a now targets))"

text \<open>Lines 250--252.\<close>

fun repeat_warnings :: "string list \<Rightarrow> unit exec" where
  "repeat_warnings [] = return ()"
| "repeat_warnings (m # ms) = bind (warn (Text m)) (\<lambda>_. repeat_warnings ms)"

text \<open>
  The run from line 194 on, for a loaded configuration and the time \<^verbatim>\<open>now\<close> of line 201.
  The \<^verbatim>\<open>mkdir\<close> of line 205 is left out: line 194 has found the directory to be a mount
  point.
\<close>

definition main :: "system \<Rightarrow> args \<Rightarrow> (string \<times> backup_config) list \<Rightarrow> int \<Rightarrow> unit exec" where
  "main sys a config now =
     (if \<not> is_mountpoint sys (arg_snapshot_dir a)
      then raise (RuntimeError (''It is advised to make '' @ arg_snapshot_dir a @ '' a mountpoint''))
      else bind (phase1 sys a now config)
        (\<lambda>config'. bind (phase2 sys a now config')
        (\<lambda>_ s. repeat_warnings (messages s) s)))"

definition initial :: state where
  "initial = \<lparr>messages = [], warnings = [], calls = []\<rparr>"

section \<open>Properties of \<^const>\<open>closest\<close>\<close>

text \<open>
  The loop either leaves its two variables as they were, or ends on an element of the list
  together with its distance, and that distance is below the bound it started with.
\<close>

lemma closest_loop_result:
  "closest_loop t xs (b, bd) = (r, rd) \<Longrightarrow>
     (r, rd) = (b, bd) \<or> (r \<in> set xs \<and> rd = \<bar>t - r\<bar> \<and> rd < bd)"
proof (induction xs arbitrary: b bd)
  case Nil
  then show ?case by simp
next
  case (Cons c cs)
  show ?case
  proof (cases "\<bar>t - c\<bar> < bd")
    case True
    with Cons.prems have "closest_loop t cs (c, \<bar>t - c\<bar>) = (r, rd)" by simp
    from Cons.IH [OF this] True show ?thesis by auto
  next
    case False
    with Cons.prems have "closest_loop t cs (b, bd) = (r, rd)" by simp
    from Cons.IH [OF this] show ?thesis by auto
  qed
qed

text \<open>The distance it ends with is the least in the list, unless the bound is lower.\<close>

lemma closest_loop_least:
  "closest_loop t xs (b, bd) = (r, rd) \<Longrightarrow> rd \<le> bd \<and> (\<forall>c\<in>set xs. rd \<le> \<bar>t - c\<bar>)"
proof (induction xs arbitrary: b bd)
  case Nil
  then show ?case by simp
next
  case (Cons c cs)
  show ?case
  proof (cases "\<bar>t - c\<bar> < bd")
    case True
    with Cons.prems have "closest_loop t cs (c, \<bar>t - c\<bar>) = (r, rd)" by simp
    from Cons.IH [OF this] True show ?thesis by auto
  next
    case False
    with Cons.prems have "closest_loop t cs (b, bd) = (r, rd)" by simp
    from Cons.IH [OF this] False show ?thesis by auto
  qed
qed

text \<open>Every element before the one it ends on is strictly farther away.\<close>

lemma closest_loop_first:
  "closest_loop t xs (b, bd) = (r, rd) \<Longrightarrow> rd < bd \<Longrightarrow>
     \<exists>i<length xs. xs ! i = r \<and> (\<forall>j<i. rd < \<bar>t - xs ! j\<bar>)"
proof (induction xs arbitrary: b bd)
  case Nil
  then show ?case by simp
next
  case (Cons c cs)
  show ?case
  proof (cases "\<bar>t - c\<bar> < bd")
    case True
    with Cons.prems have run: "closest_loop t cs (c, \<bar>t - c\<bar>) = (r, rd)" by simp
    show ?thesis
    proof (cases "rd < \<bar>t - c\<bar>")
      case True
      from Cons.IH [OF run True] obtain i where
        i: "i < length cs" "cs ! i = r" "\<forall>j<i. rd < \<bar>t - cs ! j\<bar>" by blast
      have "\<forall>j<Suc i. rd < \<bar>t - (c # cs) ! j\<bar>"
        using i(3) True by (auto simp: less_Suc_eq_0_disj)
      with i(1,2) show ?thesis by (intro exI [of _ "Suc i"]) simp
    next
      case False
      with closest_loop_result [OF run] have "r = c" by auto
      then show ?thesis by (intro exI [of _ 0]) simp
    qed
  next
    case False
    with Cons.prems have run: "closest_loop t cs (b, bd) = (r, rd)" by simp
    from Cons.IH [OF run Cons.prems(2)] obtain i where
      i: "i < length cs" "cs ! i = r" "\<forall>j<i. rd < \<bar>t - cs ! j\<bar>" by blast
    have "\<forall>j<Suc i. rd < \<bar>t - (c # cs) ! j\<bar>"
      using i(3) False Cons.prems(2) by (auto simp: less_Suc_eq_0_disj)
    with i(1,2) show ?thesis by (intro exI [of _ "Suc i"]) simp
  qed
qed

text \<open>A loop that improves on its bound ends the same way from any bound above.\<close>

lemma closest_loop_raise_bound:
  "closest_loop t cs (c, d) = (r, rd) \<Longrightarrow> rd < d \<Longrightarrow> d \<le> bd \<Longrightarrow>
     closest_loop t cs (b, bd) = (r, rd)"
proof (induction cs arbitrary: c d b bd)
  case Nil
  then show ?case by simp
next
  case (Cons x xs)
  consider "\<bar>t - x\<bar> < d" | "d \<le> \<bar>t - x\<bar>" "\<bar>t - x\<bar> < bd" | "bd \<le> \<bar>t - x\<bar>" by linarith
  then show ?case
  proof cases
    case 1
    with Cons.prems show ?thesis by simp
  next
    case 2
    with Cons.prems have "closest_loop t xs (c, d) = (r, rd)" by simp
    from Cons.IH [OF this Cons.prems(2) 2(1)] 2 show ?thesis by simp
  next
    case 3
    with Cons.prems have "closest_loop t xs (c, d) = (r, rd)" by simp
    from Cons.IH [OF this Cons.prems(2,3)] 3 show ?thesis by simp
  qed
qed

text \<open>Dropping elements that are not the result does not change the result.\<close>

lemma closest_loop_filter:
  "closest_loop t xs (b, bd) = (r, rd) \<Longrightarrow> (r, rd) = (b, bd) \<or> p r \<Longrightarrow>
     closest_loop t (filter p xs) (b, bd) = (r, rd)"
proof (induction xs arbitrary: b bd)
  case Nil
  then show ?case by simp
next
  case (Cons c cs)
  show ?case
  proof (cases "\<bar>t - c\<bar> < bd")
    case True
    with Cons.prems have run: "closest_loop t cs (c, \<bar>t - c\<bar>) = (r, rd)" by simp
    from closest_loop_least [OF run] True have ne: "(r, rd) \<noteq> (b, bd)" by auto
    with Cons.prems(2) have pr: "p r" by auto
    show ?thesis
    proof (cases "p c")
      case True
      from Cons.IH [OF run] pr have "closest_loop t (filter p cs) (c, \<bar>t - c\<bar>) = (r, rd)"
        by simp
      with True \<open>\<bar>t - c\<bar> < bd\<close> show ?thesis by simp
    next
      case False
      with pr have "r \<noteq> c" by auto
      with closest_loop_result [OF run] have "rd < \<bar>t - c\<bar>" by auto
      from closest_loop_raise_bound [OF run this] True
      have "closest_loop t cs (b, bd) = (r, rd)" by simp
      from Cons.IH [OF this] pr have "closest_loop t (filter p cs) (b, bd) = (r, rd)"
        by simp
      with False show ?thesis by simp
    qed
  next
    case False
    with Cons.prems have run: "closest_loop t cs (b, bd) = (r, rd)" by simp
    from Cons.IH [OF run Cons.prems(2)] False show ?thesis by simp
  qed
qed

lemma closest_loop_remove1:
  "closest_loop t xs (b, bd) = (r, rd) \<Longrightarrow> (r, rd) = (b, bd) \<or> r \<noteq> x \<Longrightarrow>
     closest_loop t (remove1 x xs) (b, bd) = (r, rd)"
proof (induction xs arbitrary: b bd)
  case Nil
  then show ?case by simp
next
  case (Cons c cs)
  show ?case
  proof (cases "\<bar>t - c\<bar> < bd")
    case True
    with Cons.prems have run: "closest_loop t cs (c, \<bar>t - c\<bar>) = (r, rd)" by simp
    from closest_loop_least [OF run] True have ne: "(r, rd) \<noteq> (b, bd)" by auto
    with Cons.prems(2) have rx: "r \<noteq> x" by auto
    show ?thesis
    proof (cases "c = x")
      case False
      from Cons.IH [OF run] rx have "closest_loop t (remove1 x cs) (c, \<bar>t - c\<bar>) = (r, rd)"
        by simp
      with False \<open>\<bar>t - c\<bar> < bd\<close> show ?thesis by simp
    next
      case True
      with rx have "r \<noteq> c" by auto
      with closest_loop_result [OF run] have "rd < \<bar>t - c\<bar>" by auto
      from closest_loop_raise_bound [OF run this] \<open>\<bar>t - c\<bar> < bd\<close>
      have "closest_loop t cs (b, bd) = (r, rd)" by simp
      with True show ?thesis by simp
    qed
  next
    case False
    with Cons.prems have run: "closest_loop t cs (b, bd) = (r, rd)" by simp
    from Cons.IH [OF run Cons.prems(2)] False run show ?thesis by simp
  qed
qed

lemma closest_SomeD:
  assumes "closest t xs = Some c"
  shows "c \<noteq> 0" and "c \<in> set xs" and "\<bar>t - c\<bar> < t"
    and "\<forall>x\<in>set xs. \<bar>t - c\<bar> \<le> \<bar>t - x\<bar>"
    and "\<exists>i<length xs. xs ! i = c \<and> (\<forall>j<i. \<bar>t - c\<bar> < \<bar>t - xs ! j\<bar>)"
proof -
  obtain r rd where run: "closest_loop t xs (0, t) = (r, rd)" by force
  with assms have c: "r = c" "c \<noteq> 0" by (auto simp: closest_def split: if_splits)
  with closest_loop_result [OF run] have *: "c \<in> set xs" "rd = \<bar>t - c\<bar>" "rd < t" by auto
  show "c \<noteq> 0" by fact
  show "c \<in> set xs" by fact
  show "\<bar>t - c\<bar> < t" using * by simp
  show "\<forall>x\<in>set xs. \<bar>t - c\<bar> \<le> \<bar>t - x\<bar>" using closest_loop_least [OF run] * by simp
  show "\<exists>i<length xs. xs ! i = c \<and> (\<forall>j<i. \<bar>t - c\<bar> < \<bar>t - xs ! j\<bar>)"
    using closest_loop_first [OF run *(3)] c * by simp
qed

lemma closest_None_iff: "closest t xs = None \<longleftrightarrow> (\<forall>c\<in>set xs. \<not> \<bar>t - c\<bar> < t)"
proof -
  obtain r rd where run: "closest_loop t xs (0, t) = (r, rd)" by force
  show ?thesis
  proof
    assume "closest t xs = None"
    with run have "r = 0" by (auto simp: closest_def split: if_splits)
    with closest_loop_result [OF run] have "rd = t" by auto
    with closest_loop_least [OF run] show "\<forall>c\<in>set xs. \<not> \<bar>t - c\<bar> < t" by auto
  next
    assume none: "\<forall>c\<in>set xs. \<not> \<bar>t - c\<bar> < t"
    with closest_loop_result [OF run] have "r = 0" by auto
    with run show "closest t xs = None" by (simp add: closest_def)
  qed
qed

text \<open>
  The bound of the search is the target itself (line 28). With a negative target and a
  negative entry in the list this differs from the bound \<open>\<bar>target\<bar>\<close>: the entry \<open>-9\<close> is at
  distance 1 from \<open>-10\<close> and is not returned.
\<close>

lemma closest_bound_is_target:
  "closest (- 10) [- 9] = None \<and> \<bar>(- 10) - (- 9)\<bar> < \<bar>- 10 :: int\<bar>"
  by (simp add: closest_def)

lemma closest_positive: "closest t xs = Some c \<Longrightarrow> 0 < c \<and> c < 2 * t"
  using closest_SomeD(3) [of t xs c] by linarith

lemma closest_in_pool: "closest t xs = Some c \<Longrightarrow> c \<in> set xs"
  by (rule closest_SomeD(2))

lemma closest_filter:
  assumes "closest t xs = Some c" and "p c"
  shows "closest t (filter p xs) = Some c"
proof -
  obtain r rd where run: "closest_loop t xs (0, t) = (r, rd)" by force
  with assms have c: "r = c" "c \<noteq> 0" by (auto simp: closest_def split: if_splits)
  from closest_loop_filter [OF run, of p] assms(2) c
  have "closest_loop t (filter p xs) (0, t) = (c, rd)" by simp
  with c show ?thesis by (simp add: closest_def)
qed

lemma closest_filter_None: "closest t xs = None \<Longrightarrow> closest t (filter p xs) = None"
  by (simp add: closest_None_iff)

lemma closest_remove1:
  assumes "closest t xs = Some c" and "c \<noteq> x"
  shows "closest t (remove1 x xs) = Some c"
proof -
  obtain r rd where run: "closest_loop t xs (0, t) = (r, rd)" by force
  with assms have c: "r = c" "c \<noteq> 0" by (auto simp: closest_def split: if_splits)
  from closest_loop_remove1 [OF run, of x] assms(2) c
  have "closest_loop t (remove1 x xs) (0, t) = (c, rd)" by simp
  with c show ?thesis by (simp add: closest_def)
qed

lemma closest_remove1_None: "closest t xs = None \<Longrightarrow> closest t (remove1 x xs) = None"
  by (auto simp: closest_None_iff dest: notin_set_remove1)

section \<open>Properties of the selection loop\<close>

lemma keep_loop_acc: "keep_loop a ws pool keep = keep @ keep_loop a ws pool []"
proof (induction ws arbitrary: pool keep)
  case Nil
  show ?case by simp
next
  case (Cons w ws)
  show ?case
  proof (cases "closest (a - time_intervals w) pool")
    case None
    then show ?thesis by simp
  next
    case (Some c)
    have "keep_loop a ws (remove1 c pool) (keep @ [c])
            = keep @ [c] @ keep_loop a ws (remove1 c pool) []"
      using Cons.IH [of "remove1 c pool" "keep @ [c]"] by simp
    moreover have "keep_loop a ws (remove1 c pool) [c] = [c] @ keep_loop a ws (remove1 c pool) []"
      using Cons.IH [of "remove1 c pool" "[c]"] by simp
    ultimately show ?thesis using Some by simp
  qed
qed

lemma keep_loop_step_None:
  "closest (a - time_intervals w) pool = None \<Longrightarrow> keep_loop a (w # ws) pool keep = keep"
  by simp

lemma keep_loop_step_Some:
  "closest (a - time_intervals w) pool = Some c \<Longrightarrow>
     keep_loop a (w # ws) pool keep = keep @ c # keep_loop a ws (remove1 c pool) []"
  using keep_loop_acc [of a ws "remove1 c pool" "keep @ [c]"] closest_SomeD(1) [of _ pool c]
  by simp

declare keep_loop.simps(2) [simp del]

lemma keep_loop_length: "length (keep_loop a ws pool []) \<le> length ws"
proof (induction ws arbitrary: pool)
  case Nil
  show ?case by simp
next
  case (Cons w ws)
  show ?case
  proof (cases "closest (a - time_intervals w) pool")
    case None
    then show ?thesis by (simp add: keep_loop_step_None)
  next
    case (Some c)
    from Cons.IH [of "remove1 c pool"] show ?thesis
      by (simp add: keep_loop_step_Some [OF Some])
  qed
qed

lemma keep_loop_subset: "set (keep_loop a ws pool []) \<subseteq> set pool"
proof (induction ws arbitrary: pool)
  case Nil
  show ?case by simp
next
  case (Cons w ws)
  show ?case
  proof (cases "closest (a - time_intervals w) pool")
    case None
    then show ?thesis by (simp add: keep_loop_step_None)
  next
    case (Some c)
    from Cons.IH [of "remove1 c pool"] closest_in_pool [OF Some] 
    have "set (c # keep_loop a ws (remove1 c pool) []) \<subseteq> set pool"
      using set_remove1_subset [of c pool] by auto
    then show ?thesis
      by (simp add: keep_loop_step_Some [OF Some])
  qed
qed

lemma keep_loop_filter:
  "\<forall>k\<in>set (keep_loop a ws pool []). p k \<Longrightarrow>
     keep_loop a ws (filter p pool) [] = keep_loop a ws pool []"
proof (induction ws arbitrary: pool)
  case Nil
  show ?case by simp
next
  case (Cons w ws)
  show ?case
  proof (cases "closest (a - time_intervals w) pool")
    case None
    from closest_filter_None [OF this] None show ?thesis by (simp add: keep_loop_step_None)
  next
    case (Some c)
    note step = keep_loop_step_Some [OF Some, of ws "[]"]
    from Cons.prems have pc: "p c" and rest: "\<forall>k\<in>set (keep_loop a ws (remove1 c pool) []). p k"
      unfolding step by simp_all
    have "keep_loop a (w # ws) (filter p pool) []
            = c # keep_loop a ws (remove1 c (filter p pool)) []"
      using keep_loop_step_Some [OF closest_filter [of _ pool c p, OF Some pc], of ws "[]"] by simp
    also have "remove1 c (filter p pool) = filter p (remove1 c pool)"
      by (simp add: filter_remove1)
    also have "keep_loop a ws (filter p (remove1 c pool)) [] = keep_loop a ws (remove1 c pool) []"
      by (rule Cons.IH [OF rest])
    finally show ?thesis using step by simp
  qed
qed

lemma keep_loop_remove1:
  "x \<notin> set (keep_loop a ws pool []) \<Longrightarrow>
     keep_loop a ws (remove1 x pool) [] = keep_loop a ws pool []"
proof (induction ws arbitrary: pool)
  case Nil
  show ?case by simp
next
  case (Cons w ws)
  show ?case
  proof (cases "closest (a - time_intervals w) pool")
    case None
    from closest_remove1_None [OF this] None show ?thesis by (simp add: keep_loop_step_None)
  next
    case (Some c)
    note step = keep_loop_step_Some [OF Some, of ws "[]"]
    from Cons.prems have cx: "c \<noteq> x" and rest: "x \<notin> set (keep_loop a ws (remove1 c pool) [])"
      unfolding step by auto
    have "keep_loop a (w # ws) (remove1 x pool) []
            = c # keep_loop a ws (remove1 c (remove1 x pool)) []"
      using keep_loop_step_Some [OF closest_remove1 [OF Some cx], of ws "[]"] by simp
    also have "remove1 c (remove1 x pool) = remove1 x (remove1 c pool)"
      by (rule remove1_commute)
    also have "keep_loop a ws (remove1 x (remove1 c pool)) [] = keep_loop a ws (remove1 c pool) []"
      by (rule Cons.IH [OF rest])
    finally show ?thesis using step by simp
  qed
qed

lemma keep_loop_positive: "\<forall>k\<in>set (keep_loop a ws pool []). 0 < k"
proof (induction ws arbitrary: pool)
  case Nil
  show ?case by simp
next
  case (Cons w ws)
  show ?case
  proof (cases "closest (a - time_intervals w) pool")
    case None
    then show ?thesis by (simp add: keep_loop_step_None)
  next
    case (Some c)
    from Cons.IH [of "remove1 c pool"] closest_positive [OF Some] show ?thesis
      by (simp add: keep_loop_step_Some [OF Some])
  qed
qed

lemma keep_loop_stopped:
  "length (keep_loop a ws1 pool []) < length ws1 \<Longrightarrow>
     keep_loop a (ws1 @ ws2) pool [] = keep_loop a ws1 pool []"
proof (induction ws1 arbitrary: pool)
  case Nil
  then show ?case by simp
next
  case (Cons w ws)
  show ?case
  proof (cases "closest (a - time_intervals w) pool")
    case None
    then show ?thesis by (simp add: keep_loop_step_None)
  next
    case (Some c)
    note step = keep_loop_step_Some [OF Some, of _ "[]"]
    from Cons.prems have "length (keep_loop a ws (remove1 c pool) []) < length ws"
      by (simp add: step)
    from Cons.IH [OF this] show ?thesis by (simp add: step)
  qed
qed

lemma wanted_length: "length (wanted_snapshots d w m) = d + w + m"
  by (simp add: wanted_snapshots_def)

lemma wanted_first_day: "wanted_snapshots (Suc d) w m = Day # wanted_snapshots d w m"
  by (simp add: wanted_snapshots_def)

text \<open>
  Every slot measures from \<^verbatim>\<open>now\<close>, since \<^verbatim>\<open>last_kept_timestamp\<close> keeps its value:
  after 913000 is kept, the second daily slot keeps 999000, the nearest to 913600, and not
  826500, the nearest to 826600.
\<close>

lemma every_slot_measures_from_now:
  "select_keep 2 0 0 1000000 [913000, 826500, 999000] = [913000, 999000]"
  by (simp add: select_keep_def wanted_snapshots_def keep_loop.simps closest_def numeral_2_eq_2)

text \<open>
  A kept list is a pool from which the same slots keep everything again, in the same order.
\<close>

lemma closest_head:
  assumes "closest t pool = Some c" and "set rest \<subseteq> set pool"
  shows "closest t (c # rest) = Some c"
proof -
  have far: "\<forall>x\<in>set rest. \<not> \<bar>t - x\<bar> < \<bar>t - c\<bar>"
    using closest_SomeD(4) [OF assms(1)] assms(2) by fastforce
  have stay: "closest_loop t rest (c, \<bar>t - c\<bar>) = (c, \<bar>t - c\<bar>)"
    using far by (induction rest) simp_all
  from closest_SomeD(1,3) [OF assms(1)] stay show ?thesis
    by (simp add: closest_def)
qed

lemma keep_loop_again:
  "keep_loop a ws (keep_loop a ws pool []) [] = keep_loop a ws pool []"
proof (induction ws arbitrary: pool)
  case Nil
  show ?case by simp
next
  case (Cons w ws)
  show ?case
  proof (cases "closest (a - time_intervals w) pool")
    case None
    then have "keep_loop a (w # ws) pool [] = []" by (simp add: keep_loop_step_None)
    moreover have "closest (a - time_intervals w) [] = None" by (simp add: closest_def)
    ultimately show ?thesis by (simp add: keep_loop_step_None)
  next
    case (Some c)
    let ?rest = "keep_loop a ws (remove1 c pool) []"
    have step: "keep_loop a (w # ws) pool [] = c # ?rest"
      using keep_loop_step_Some [OF Some, of ws "[]"] by simp
    have "set ?rest \<subseteq> set pool"
      using keep_loop_subset [of a ws "remove1 c pool"] set_remove1_subset [of c pool] by blast
    from closest_head [OF Some this]
    have "keep_loop a (w # ws) (c # ?rest) [] = c # keep_loop a ws (remove1 c (c # ?rest)) []"
      using keep_loop_step_Some [of a w "c # ?rest" c ws "[]"] by simp
    also have "remove1 c (c # ?rest) = ?rest" by simp
    also have "keep_loop a ws ?rest [] = ?rest" by (rule Cons.IH)
    finally show ?thesis by (simp add: step)
  qed
qed

section \<open>Properties of the statements of a run\<close>

lemma bind_Inr: "m s = (Inr a, s') \<Longrightarrow> bind m f s = f a s'"
  by (simp add: bind_def)

lemma bind_return: "bind (return a) f = f a"
  by (rule ext) (simp add: bind_def return_def)

text \<open>
  The pruning steps only start processes: their outcome and the processes they start do not
  depend on the state they are run in.
\<close>

lemma emits_bind_append:
  assumes "\<forall>s. m s = (r, s\<lparr>calls := calls s @ ext1\<rparr>)"
    and "\<And>a. r = Inr a \<Longrightarrow> \<exists>r' ext2. \<forall>s. f a s = (r', s\<lparr>calls := calls s @ ext2\<rparr>)"
  shows "\<exists>r' ext2. \<forall>s. bind m f s = (r', s\<lparr>calls := calls s @ ext1 @ ext2\<rparr>)"
proof (cases r)
  case (Inl e)
  with assms(1) have "\<forall>s. bind m f s = (Inl e, s\<lparr>calls := calls s @ ext1 @ []\<rparr>)"
    by (simp add: bind_def)
  then show ?thesis by blast
next
  case (Inr a)
  from assms(2) [OF this] obtain r' ext2 where
    f: "\<forall>s. f a s = (r', s\<lparr>calls := calls s @ ext2\<rparr>)" by blast
  from assms(1) Inr f have "\<forall>s. bind m f s = (r', s\<lparr>calls := calls s @ ext1 @ ext2\<rparr>)"
    by (simp add: bind_def)
  then show ?thesis by blast
qed

lemma emits_bind:
  assumes "\<forall>s. m s = (r, s\<lparr>calls := calls s @ ext1\<rparr>)"
    and "\<And>a. r = Inr a \<Longrightarrow> \<exists>r' ext2. \<forall>s. f a s = (r', s\<lparr>calls := calls s @ ext2\<rparr>)"
  shows "\<exists>r' ext'. \<forall>s. bind m f s = (r', s\<lparr>calls := calls s @ ext'\<rparr>)"
proof -
  have "\<exists>r' ext2. \<forall>s. bind m f s = (r', s\<lparr>calls := calls s @ ext1 @ ext2\<rparr>)"
    by (rule emits_bind_append [OF assms(1)]) (rule assms(2))
  then show ?thesis by blast
qed

lemma emits_return_ex: "\<exists>r ext. \<forall>s. return a s = (r, s\<lparr>calls := calls s @ ext\<rparr>)"
  by (rule exI [of _ "Inr a"], rule exI [of _ "[]"]) (simp add: return_def)

lemma emits_raise_ex: "\<exists>r ext. \<forall>s. raise e s = (r, (s::state)\<lparr>calls := calls s @ ext\<rparr>)"
  by (rule exI [of _ "Inl e"], rule exI [of _ "[]"]) (simp add: raise_def)

lemma emits_lookup: "\<exists>r. \<forall>s. lookup k v s = (r, s\<lparr>calls := calls s @ []\<rparr>)"
  by (cases v) (auto simp: lookup_def return_def raise_def)

lemma emits_run_process:
  "\<exists>r. \<forall>s. run_process sys i chk s = (r, s\<lparr>calls := calls s @ [i]\<rparr>)"
  by (simp add: run_process_def)

lemma emits_run_unit:
  "\<exists>r ext. \<forall>s. bind (run_process sys i chk) (\<lambda>_. return ()) s = (r, s\<lparr>calls := calls s @ ext\<rparr>)"
proof -
  from emits_run_process obtain r where r: "\<forall>s. run_process sys i chk s = (r, s\<lparr>calls := calls s @ [i]\<rparr>)"
    by blast
  show ?thesis by (rule emits_bind [OF r]) (rule emits_return_ex)
qed

lemma emits_parse_timestamps:
  "\<exists>r. \<forall>s. parse_timestamps sys snaps s = (r, s\<lparr>calls := calls s @ []\<rparr>)"
proof (induction snaps)
  case Nil
  show ?case by (simp add: return_def)
next
  case (Cons x xs)
  then obtain r where r: "\<forall>s. parse_timestamps sys xs s = (r, s\<lparr>calls := calls s @ []\<rparr>)" by blast
  show ?case
  proof (cases "int_of_suffix sys x")
    case None
    then show ?thesis by (simp add: raise_def)
  next
    case (Some t)
    show ?thesis
    proof (cases r)
      case (Inl e)
      with r Some show ?thesis by (simp add: bind_def)
    next
      case (Inr ts)
      with r Some show ?thesis by (simp add: bind_def return_def)
    qed
  qed
qed

lemma emits_delete_loop:
  "\<exists>r ext. \<forall>s. delete_loop sys btrfs dir keep snaps s = (r, s\<lparr>calls := calls s @ ext\<rparr>)"
proof (induction snaps)
  case Nil
  show ?case by (simp only: delete_loop.simps emits_return_ex)
next
  case (Cons x xs)
  show ?case
  proof (cases "int_of_suffix sys x")
    case None
    then show ?thesis by (simp only: delete_loop.simps option.case emits_raise_ex)
  next
    case (Some t)
    let ?del = "if t \<notin> set keep
                then bind (run_process sys \<lparr>command = [btrfs, ''subvolume'', ''delete'', pathjoin dir x],
                                             cwd = None, BORG_REPO = None\<rparr> True)
                       (\<lambda>_. return ())
                else return ()"
    have "\<exists>r ext. \<forall>s. ?del s = (r, s\<lparr>calls := calls s @ ext\<rparr>)"
      by (cases "t \<in> set keep") (simp_all only: if_True if_False not_True_eq_False not_False_eq_True emits_run_unit emits_return_ex)
    then obtain r ext where d: "\<forall>s. ?del s = (r, s\<lparr>calls := calls s @ ext\<rparr>)" by blast
    have "\<exists>r' ext'. \<forall>s. bind ?del (\<lambda>_. delete_loop sys btrfs dir keep xs) s
            = (r', s\<lparr>calls := calls s @ ext'\<rparr>)"
      by (rule emits_bind [OF d]) (rule Cons.IH)
    with Some show ?thesis by simp
  qed
qed

lemma emits_prune_snapshots:
  "\<exists>r ext. \<forall>s. prune_snapshots sys btrfs now dir snaps s = (r, s\<lparr>calls := calls s @ ext\<rparr>)"
proof -
  from emits_parse_timestamps obtain r where
    r: "\<forall>s. parse_timestamps sys snaps s = (r, s\<lparr>calls := calls s @ []\<rparr>)" by blast
  show ?thesis unfolding prune_snapshots_def
    by (rule emits_bind [OF r]) (rule emits_delete_loop)
qed

lemma emits_prune_snapshots_step:
  "\<exists>r ext. \<forall>s. prune_snapshots_step sys a now config s = (r, s\<lparr>calls := calls s @ ext\<rparr>)"
proof -
  from emits_lookup obtain r where
    r: "\<forall>s. lookup ''fstype'' (fstype config) s = (r, s\<lparr>calls := calls s @ []\<rparr>)" by blast
  show ?thesis unfolding prune_snapshots_step_def
  proof (rule emits_bind [OF r])
    fix ft
    show "\<exists>r' ext2. \<forall>s. (if ft \<in> set snapshotable_fstypes
              then bind (lookup ''subvolume_name'' (subvolume_name config))
                (\<lambda>svn. let subvolume_regex = ''^'' @ svn @ ''-('' @ [CHR 0x5C] @ ''d+)$'';
                            snapshots = filter (re_match sys subvolume_regex)
                                          (listdir sys (arg_snapshot_dir a))
                        in prune_snapshots sys (arg_with_btrfs a) now (arg_snapshot_dir a) snapshots)
              else return ()) s = (r', s\<lparr>calls := calls s @ ext2\<rparr>)"
    proof (cases "ft \<in> set snapshotable_fstypes")
      case False
      then show ?thesis by (simp only: if_False emits_return_ex)
    next
      case True
      from emits_lookup obtain r2 where
        r2: "\<forall>s. lookup ''subvolume_name'' (subvolume_name config) s = (r2, s\<lparr>calls := calls s @ []\<rparr>)"
        by blast
      have "\<exists>r' ext'. \<forall>s. bind (lookup ''subvolume_name'' (subvolume_name config))
                (\<lambda>svn. let subvolume_regex = ''^'' @ svn @ ''-('' @ [CHR 0x5C] @ ''d+)$'';
                            snapshots = filter (re_match sys subvolume_regex)
                                          (listdir sys (arg_snapshot_dir a))
                        in prune_snapshots sys (arg_with_btrfs a) now (arg_snapshot_dir a) snapshots) s
              = (r', s\<lparr>calls := calls s @ ext'\<rparr>)"
        by (rule emits_bind [OF r2]) (simp add: Let_def emits_prune_snapshots)
      with True show ?thesis by simp
    qed
  qed
qed

lemma prune_backups_ready:
  assumes "borg config = Some b" and "nice config = Some n"
  shows "\<exists>r. \<forall>s. prune_backups sys name config s
           = (r, s\<lparr>calls := calls s @ [\<lparr>command = prune_command b n, cwd = None,
                                           BORG_REPO = Some (repository config)\<rparr>]\<rparr>)"
  using assms
  by (simp add: prune_backups_def lookup_def bind_def return_def run_process_def split: sum.splits)

lemma prune_steps_emit:
  assumes "borg config = Some b" and "nice config = Some n"
  shows "\<exists>r rest. \<forall>s. bind (prune_backups sys name config)
                            (\<lambda>_. prune_snapshots_step sys a now config) s
           = (r, s\<lparr>calls := calls s @ [\<lparr>command = prune_command b n, cwd = None,
                                           BORG_REPO = Some (repository config)\<rparr>] @ rest\<rparr>)"
proof -
  from prune_backups_ready [OF assms] obtain rp where
    rp: "\<forall>s. prune_backups sys name config s
           = (rp, s\<lparr>calls := calls s @ [\<lparr>command = prune_command b n, cwd = None,
                                           BORG_REPO = Some (repository config)\<rparr>]\<rparr>)" by blast
  show ?thesis by (rule emits_bind_append [OF rp]) (rule emits_prune_snapshots_step)
qed

text \<open>
  Two systems that answer alike wherever a process is started without a working directory
  prune alike.
\<close>

lemma run_process_agree:
  "run sys' i = run sys i \<Longrightarrow> run_process sys' i chk = run_process sys i chk"
  by (rule ext) (simp add: run_process_def)

lemma parse_timestamps_agree:
  "int_of_suffix sys' = int_of_suffix sys \<Longrightarrow> parse_timestamps sys' snaps = parse_timestamps sys snaps"
  by (induction snaps) (simp_all split: option.splits)

lemma delete_loop_agree:
  assumes "int_of_suffix sys' = int_of_suffix sys"
    and "\<forall>i. cwd i = None \<longrightarrow> run sys' i = run sys i"
  shows "delete_loop sys' btrfs dir keep snaps = delete_loop sys btrfs dir keep snaps"
proof (induction snaps)
  case Nil
  show ?case by simp
next
  case (Cons x xs)
  have "run_process sys' \<lparr>command = [btrfs, ''subvolume'', ''delete'', pathjoin dir x],
                            cwd = None, BORG_REPO = None\<rparr> True
        = run_process sys \<lparr>command = [btrfs, ''subvolume'', ''delete'', pathjoin dir x],
                            cwd = None, BORG_REPO = None\<rparr> True"
    by (rule run_process_agree) (simp add: assms(2))
  with Cons.IH assms(1) show ?case by (simp split: option.splits)
qed

lemma prune_snapshots_step_agree:
  assumes "int_of_suffix sys' = int_of_suffix sys"
    and "\<forall>i. cwd i = None \<longrightarrow> run sys' i = run sys i"
    and "listdir sys' = listdir sys" and "re_match sys' = re_match sys"
  shows "prune_snapshots_step sys' a now config = prune_snapshots_step sys a now config"
  unfolding prune_snapshots_step_def prune_snapshots_def
  by (simp add: Let_def parse_timestamps_agree [OF assms(1)] delete_loop_agree [OF assms(1,2)]
        assms(3,4) cong: if_cong)

lemma prune_backups_agree:
  assumes "\<forall>i. cwd i = None \<longrightarrow> run sys' i = run sys i"
  shows "prune_backups sys' name config = prune_backups sys name config"
proof -
  have "run_process sys' \<lparr>command = prune_command b n, cwd = None,
                            BORG_REPO = Some (repository config)\<rparr> True
        = run_process sys \<lparr>command = prune_command b n, cwd = None,
                            BORG_REPO = Some (repository config)\<rparr> True" for b n
    by (rule run_process_agree) (simp add: assms)
  then show ?thesis unfolding prune_backups_def by simp
qed

text \<open>What a call of \<^const>\<open>backup\<close> has done when it returns.\<close>

lemma backup_FalseD:
  assumes "backup sys name config snap s = (Inr False, s1)"
  shows "\<exists>b ex n res. borg config = Some b \<and> excludes config = Some ex \<and> nice config = Some n
      \<and> run sys \<lparr>command = backup_command b ex n, cwd = Some (backup_cwd config snap),
                  BORG_REPO = Some (repository config)\<rparr> = Inr res
      \<and> returncode res \<noteq> 0
      \<and> messages s1 = messages s
      \<and> calls s1 = calls s @ [\<lparr>command = backup_command b ex n, cwd = Some (backup_cwd config snap),
                                 BORG_REPO = Some (repository config)\<rparr>]"
  using assms
  by (auto simp: backup_def backup_cwd_def lookup_def bind_def return_def raise_def warn_def
        run_process_def Let_def split: option.splits sum.splits if_splits)

lemma backup_succeeds:
  assumes "borg config = Some b" and "excludes config = Some ex" and "nice config = Some n"
    and "run sys \<lparr>command = backup_command b ex n, cwd = Some (backup_cwd config snap),
                  BORG_REPO = Some (repository config)\<rparr> = Inr res"
    and "returncode res = 0"
  shows "\<exists>s1. backup sys name config snap s = (Inr True, s1) \<and> messages s1 = messages s
      \<and> calls s1 = calls s @ [\<lparr>command = backup_command b ex n, cwd = Some (backup_cwd config snap),
                                 BORG_REPO = Some (repository config)\<rparr>]"
  using assms
  by (auto simp: backup_def backup_cwd_def lookup_def bind_def return_def raise_def warn_def
        run_process_def Let_def split: option.splits sum.splits if_splits)


lemma phase2_target_unfold:
  "phase2_target sys a now (name, config) =
     bind (backup sys name config (snapshot config))
       (\<lambda>ok. bind (if \<not> ok
                    then bind (record_message (backup_failed_message name))
                           (\<lambda>_. warn (Text (backup_failed_message name)))
                    else return ())
          (\<lambda>_. bind (prune_backups sys name config)
                  (\<lambda>_. prune_snapshots_step sys a now config)))"
  by (simp add: phase2_target_def Let_def cong: if_cong)


lemma phase1_target_unclassified:
  "filesystem_type sys (mountpoint config) = Inl e \<Longrightarrow>
     phase1_target sys a now (name, config) s = (Inl e, s)"
  by (simp add: phase1_target_def Let_def raise_def)

section \<open>The claims\<close>

subsection \<open>C1: the scenario with three timestamps\<close>

text \<open>
  C1, as stated: for \<^verbatim>\<open>now = 1000000\<close>, the timestamps 999900, 913000 and 395000, two
  daily slots and one weekly slot, the keep-set is exactly \<open>{913000}\<close>. The selection
  returns more than that.
\<close>

theorem scenario_keeps_only_913000_counterexample:
  "set (select_keep 2 1 0 1000000 [999900, 913000, 395000]) \<noteq> {913000}"
  by (simp add: select_keep_def wanted_snapshots_def keep_loop.simps closest_def numeral_2_eq_2)

text \<open>
  C1, amended: in that scenario the first daily slot keeps 913000 (the target is 913600),
  the second daily slot keeps 999900, the weekly slot keeps 395000, and the keep-set is
  \<open>{913000, 999900, 395000}\<close>. Also from the target 826600, one day before 913000, the
  timestamp 999900 is within distance: it is 173300 away, less than 826600. The counts 7,
  4 and 6 of the program give the same list.
\<close>

theorem scenario_keep_set:
  "closest (1000000 - time_intervals Day) [999900, 913000, 395000] = Some 913000
   \<and> closest (913000 - time_intervals Day) [999900, 395000] = Some 999900
   \<and> select_keep 2 1 0 1000000 [999900, 913000, 395000] = [913000, 999900, 395000]
   \<and> keep_timestamps 1000000 [999900, 913000, 395000] = [913000, 999900, 395000]"
  by (simp add: keep_timestamps_def select_keep_def wanted_snapshots_def keep_loop.simps closest_def
        numeral_2_eq_2 eval_nat_numeral)

subsection \<open>C2: which candidate a tier step chooses\<close>

text \<open>
  C2: the pool of a tier step holds timestamps read from snapshot names, each the value of
  a run of digits (lines 21, 141 and 246--247), so none is negative. For such a pool and
  the target \<open>anchor - d\<close> of the step, the candidate chosen is the one minimizing
  \<open>\<bar>target - candidate\<bar>\<close> among the candidates whose distance is strictly less than
  \<open>\<bar>target\<bar>\<close>; none is chosen exactly when there is none such; the timestamp 0 is never
  chosen; of candidates at equal distance the one met first is chosen, every candidate
  before it being strictly farther away; and the pool of the next step has no negative
  entry either.
\<close>

theorem closest_nearest_first:
  assumes "\<forall>c\<in>set pool. 0 \<le> c"
  shows "closest target pool \<noteq> Some 0
    \<and> (closest target pool = None \<longleftrightarrow> (\<forall>c\<in>set pool. \<not> \<bar>target - c\<bar> < \<bar>target\<bar>))
    \<and> (\<forall>b. closest target pool = Some b \<longrightarrow>
          (\<exists>i<length pool. pool ! i = b
             \<and> \<bar>target - b\<bar> < \<bar>target\<bar>
             \<and> (\<forall>c\<in>set pool. \<bar>target - b\<bar> \<le> \<bar>target - c\<bar>)
             \<and> (\<forall>j<i. \<bar>target - b\<bar> < \<bar>target - pool ! j\<bar>))
          \<and> (\<forall>c\<in>set (remove1 b pool). 0 \<le> c))"
proof (intro conjI allI impI)
  show "closest target pool \<noteq> Some 0"
    using closest_SomeD(1) [of target pool 0] by auto
  have crit: "\<bar>target - c\<bar> < \<bar>target\<bar> \<longleftrightarrow> \<bar>target - c\<bar> < target" if "c \<in> set pool" for c
    using assms that by fastforce
  show "closest target pool = None \<longleftrightarrow> (\<forall>c\<in>set pool. \<not> \<bar>target - c\<bar> < \<bar>target\<bar>)"
    by (simp add: closest_None_iff crit)
  fix b
  assume b: "closest target pool = Some b"
  from closest_SomeD(5) [OF b] obtain i where
    i: "i < length pool" "pool ! i = b" "\<forall>j<i. \<bar>target - b\<bar> < \<bar>target - pool ! j\<bar>" by blast
  from closest_SomeD(3) [OF b] have "\<bar>target - b\<bar> < \<bar>target\<bar>" by linarith
  with i closest_SomeD(4) [OF b]
  show "\<exists>i<length pool. pool ! i = b \<and> \<bar>target - b\<bar> < \<bar>target\<bar>
          \<and> (\<forall>c\<in>set pool. \<bar>target - b\<bar> \<le> \<bar>target - c\<bar>)
          \<and> (\<forall>j<i. \<bar>target - b\<bar> < \<bar>target - pool ! j\<bar>)"
    by blast
  show "\<forall>c\<in>set (remove1 b pool). 0 \<le> c"
    using assms by (auto dest: notin_set_remove1)
qed

text \<open>
  An instance: the pool 5, 7, 3, 0. For the target 6 the candidates 5 and 7 are both at
  distance 1, and 5 comes first. For the target \<open>-4\<close> nothing is chosen.
\<close>

theorem closest_nearest_first_witness:
  "(0 :: int) \<le> 5 \<and> (0 :: int) \<le> 7 \<and> (0 :: int) \<le> 3 \<and> (0 :: int) \<le> 0
   \<and> closest 6 [5, 7, 3, 0] = Some 5
   \<and> closest 6 [5, 7, 3, 0] \<noteq> Some 0
   \<and> (\<exists>i<length [5, 7, 3, 0 :: int]. [5, 7, 3, 0] ! i = (5 :: int) \<and> \<bar>6 - 5\<bar> < \<bar>6 :: int\<bar>
         \<and> (\<forall>c\<in>set [5, 7, 3, 0 :: int]. \<bar>6 - 5\<bar> \<le> \<bar>6 - c\<bar>)
         \<and> (\<forall>j<i. \<bar>6 - 5\<bar> < \<bar>6 - [5, 7, 3, 0 :: int] ! j\<bar>))
   \<and> closest (- 4) [5, 7, 3, 0] = None
   \<and> \<not> \<bar>(- 4) - 3\<bar> < \<bar>- 4 :: int\<bar>"
proof -
  have nonneg: "\<forall>c\<in>set [5, 7, 3, 0 :: int]. 0 \<le> c" by simp
  have sel: "closest 6 [5, 7, 3, 0] = Some 5" by (simp add: closest_def)
  have none: "closest (- 4) [5, 7, 3, 0] = None" by (simp add: closest_def)
  from closest_nearest_first [OF nonneg, of 6] sel
  have "closest 6 [5, 7, 3, 0] \<noteq> Some 0"
    and "\<exists>i<length [5, 7, 3, 0 :: int]. [5, 7, 3, 0] ! i = (5 :: int) \<and> \<bar>6 - 5\<bar> < \<bar>6 :: int\<bar>
         \<and> (\<forall>c\<in>set [5, 7, 3, 0 :: int]. \<bar>6 - 5\<bar> \<le> \<bar>6 - c\<bar>)
         \<and> (\<forall>j<i. \<bar>6 - 5\<bar> < \<bar>6 - [5, 7, 3, 0 :: int] ! j\<bar>)"
    by blast+
  moreover from closest_nearest_first [OF nonneg, of "- 4"] none
  have "\<not> \<bar>(- 4) - 3\<bar> < \<bar>- 4 :: int\<bar>" by simp
  ultimately show ?thesis using sel none by simp
qed

subsection \<open>C3: the sequence stops at the first slot without a candidate\<close>

text \<open>
  C3: when a slot finds no candidate, the loop returns what it has kept so far, whatever
  slots remain; a loop that has kept fewer timestamps than it had slots returns the same
  list however many slots are appended; and when no timestamp is within distance of the
  first daily target, the keep-set is empty.
\<close>

theorem stop_at_first_gap:
  "(closest (anchor - time_intervals w) pool = None \<longrightarrow> keep_loop anchor (w # ws) pool keep = keep)
   \<and> (length (keep_loop anchor slots pool []) < length slots \<longrightarrow>
        keep_loop anchor (slots @ later) pool [] = keep_loop anchor slots pool [])
   \<and> ((\<forall>c\<in>set ts. \<not> \<bar>now - time_intervals Day - c\<bar> < now - time_intervals Day) \<longrightarrow>
        keep_timestamps now ts = [])"
proof (intro conjI impI)
  assume "closest (anchor - time_intervals w) pool = None"
  then show "keep_loop anchor (w # ws) pool keep = keep" by (rule keep_loop_step_None)
next
  assume "length (keep_loop anchor slots pool []) < length slots"
  then show "keep_loop anchor (slots @ later) pool [] = keep_loop anchor slots pool []"
    by (rule keep_loop_stopped)
next
  assume "\<forall>c\<in>set ts. \<not> \<bar>now - time_intervals Day - c\<bar> < now - time_intervals Day"
  then have "closest (now - time_intervals Day) ts = None" by (simp only: closest_None_iff)
  then show "keep_timestamps now ts = []"
    by (simp add: keep_timestamps_def select_keep_def eval_nat_numeral wanted_first_day
          keep_loop_step_None)
qed

text \<open>An instance: the timestamps 0 and 2000000 at \<^verbatim>\<open>now = 1000000\<close>.\<close>

theorem stop_at_first_gap_witness:
  "closest (1000000 - time_intervals Day) [0, 2000000] = None
   \<and> keep_loop 1000000 (Day # [Week, Month]) [0, 2000000] [] = []
   \<and> length (keep_loop 1000000 [Day] [0, 2000000] []) < length [Day]
   \<and> keep_loop 1000000 ([Day] @ [Week, Month]) [0, 2000000] [] = keep_loop 1000000 [Day] [0, 2000000] []
   \<and> \<not> \<bar>1000000 - time_intervals Day - 0\<bar> < 1000000 - time_intervals Day
   \<and> \<not> \<bar>1000000 - time_intervals Day - 2000000\<bar> < 1000000 - time_intervals Day
   \<and> keep_timestamps 1000000 [0, 2000000] = []"
proof -
  have gap: "closest (1000000 - time_intervals Day) [0, 2000000] = None"
    by (simp add: closest_def)
  have short: "length (keep_loop 1000000 [Day] [0, 2000000] []) < length [Day]"
    by (simp add: keep_loop_step_None [OF gap])
  have far: "\<forall>c\<in>set [0, 2000000 :: int].
               \<not> \<bar>1000000 - time_intervals Day - c\<bar> < 1000000 - time_intervals Day"
    by simp
  from stop_at_first_gap [where anchor = 1000000 and w = Day and pool = "[0, 2000000]"
      and ws = "[Week, Month]" and keep = "[]" and slots = "[Day]" and later = "[Week, Month]"
      and ts = "[0, 2000000]" and now = 1000000]
    gap short far
  have "keep_loop 1000000 (Day # [Week, Month]) [0, 2000000] [] = []"
    and "keep_loop 1000000 ([Day] @ [Week, Month]) [0, 2000000] [] = keep_loop 1000000 [Day] [0, 2000000] []"
    and "keep_timestamps 1000000 [0, 2000000] = []"
    by blast+
  with gap short show ?thesis by simp
qed

subsection \<open>C4: the keep-set is part of the existing set and has at most 17 elements\<close>

text \<open>
  C4: for every list of existing timestamps and every \<^verbatim>\<open>now\<close>, every kept timestamp is
  an existing one, at most 17 are kept (7 daily, 4 weekly and 6 monthly slots), and nothing
  is kept when nothing exists.
\<close>

theorem keep_subset_bounded:
  "set (keep_timestamps now ts) \<subseteq> set ts
   \<and> length (keep_timestamps now ts) \<le> 17
   \<and> card (set (keep_timestamps now ts)) \<le> 17
   \<and> keep_timestamps now [] = []"
proof (intro conjI)
  show "set (keep_timestamps now ts) \<subseteq> set ts"
    by (simp add: keep_timestamps_def select_keep_def keep_loop_subset)
  have "length (keep_timestamps now ts) \<le> length (wanted_snapshots 7 4 6)"
    unfolding keep_timestamps_def select_keep_def by (rule keep_loop_length)
  then show len: "length (keep_timestamps now ts) \<le> 17" by (simp add: wanted_length)
  from card_length [of "keep_timestamps now ts"] len
  show "card (set (keep_timestamps now ts)) \<le> 17" by linarith
  have "set (keep_timestamps now []) \<subseteq> set []"
    by (simp only: keep_timestamps_def select_keep_def keep_loop_subset)
  then show "keep_timestamps now [] = []" by simp
qed

theorem keep_subset_bounded_witness:
  "set (keep_timestamps 1000000 [999900, 913000, 395000]) \<subseteq> set [999900, 913000, 395000]
   \<and> length (keep_timestamps 1000000 [999900, 913000, 395000]) \<le> 17"
  using keep_subset_bounded [of 1000000 "[999900, 913000, 395000]"] by blast

subsection \<open>C5: selecting again after pruning\<close>

text \<open>
  C5: the snapshots that survive the deletion of lines 156--161 are those whose timestamp
  was kept, in the order of the listing. Selecting again among them, with the same
  \<^verbatim>\<open>now\<close>, keeps the same timestamps, and nothing more is deleted. The same holds
  when the second selection is given the kept timestamps in the order in which they were
  kept.
\<close>

theorem keep_idempotent:
  "keep_timestamps now (surviving now ts) = keep_timestamps now ts
   \<and> pruned now (surviving now ts) = []
   \<and> keep_timestamps now (keep_timestamps now ts) = keep_timestamps now ts"
proof (intro conjI)
  show same: "keep_timestamps now (surviving now ts) = keep_timestamps now ts"
    unfolding surviving_def
    by (simp add: keep_timestamps_def select_keep_def keep_loop_filter)
  show "pruned now (surviving now ts) = []"
    unfolding pruned_def same by (simp add: surviving_def)
  show "keep_timestamps now (keep_timestamps now ts) = keep_timestamps now ts"
    by (simp add: keep_timestamps_def select_keep_def keep_loop_again)
qed

text \<open>An instance, where 2000000 and 0 are deleted by the first selection.\<close>

theorem keep_idempotent_witness:
  "surviving 1000000 [999900, 2000000, 913000, 395000, 0] = [999900, 913000, 395000]
   \<and> keep_timestamps 1000000 [999900, 913000, 395000]
        = keep_timestamps 1000000 [999900, 2000000, 913000, 395000, 0]
   \<and> pruned 1000000 [999900, 913000, 395000] = []"
proof -
  have k: "keep_timestamps 1000000 [999900, 2000000, 913000, 395000, 0] = [913000, 999900, 395000]"
    by (simp add: keep_timestamps_def select_keep_def wanted_snapshots_def keep_loop.simps
          closest_def eval_nat_numeral)
  then have "surviving 1000000 [999900, 2000000, 913000, 395000, 0] = [999900, 913000, 395000]"
    by (simp add: surviving_def)
  with keep_idempotent [of 1000000 "[999900, 2000000, 913000, 395000, 0]"] show ?thesis by simp
qed

subsection \<open>C6: removing the most recent timestamp\<close>

text \<open>
  C6: when the most recent of the existing timestamps is removed and the selection is made
  again, every timestamp of the new keep-set is at most as recent as some timestamp of the
  keep-set before: none is more recent than all that were kept.
\<close>

theorem removing_latest_monotone:
  assumes "x \<in> set ts" and "\<forall>t\<in>set ts. t \<le> x"
  shows "\<forall>t\<in>set (keep_timestamps now (remove1 x ts)). \<exists>k\<in>set (keep_timestamps now ts). t \<le> k"
proof (cases "x \<in> set (keep_timestamps now ts)")
  case True
  have "set (keep_timestamps now (remove1 x ts)) \<subseteq> set ts"
    using keep_loop_subset [of now _ "remove1 x ts"] set_remove1_subset [of x ts]
    unfolding keep_timestamps_def select_keep_def by blast
  with assms(2) True show ?thesis by blast
next
  case False
  then have "keep_timestamps now (remove1 x ts) = keep_timestamps now ts"
    unfolding keep_timestamps_def select_keep_def by (rule keep_loop_remove1)
  then show ?thesis by auto
qed

theorem removing_latest_monotone_witness:
  "999900 \<in> set [999900, 913000, 395000 :: int]
   \<and> (999900 :: int) \<le> 999900 \<and> (913000 :: int) \<le> 999900 \<and> (395000 :: int) \<le> 999900
   \<and> keep_timestamps 1000000 (remove1 999900 [999900, 913000, 395000]) = [913000, 395000]
   \<and> (\<exists>k\<in>set (keep_timestamps 1000000 [999900, 913000, 395000]). 913000 \<le> k)
   \<and> (\<exists>k\<in>set (keep_timestamps 1000000 [999900, 913000, 395000]). 395000 \<le> k)"
proof -
  have mem: "999900 \<in> set [999900, 913000, 395000 :: int]" by simp
  have latest: "\<forall>t\<in>set [999900, 913000, 395000 :: int]. t \<le> 999900" by simp
  have after: "keep_timestamps 1000000 (remove1 999900 [999900, 913000, 395000]) = [913000, 395000]"
    by (simp add: keep_timestamps_def select_keep_def wanted_snapshots_def keep_loop.simps
          closest_def eval_nat_numeral)
  from removing_latest_monotone [OF mem latest, of 1000000] after
  have "\<forall>t\<in>set [913000, 395000 :: int].
          \<exists>k\<in>set (keep_timestamps 1000000 [999900, 913000, 395000]). t \<le> k"
    by simp
  with mem after show ?thesis by simp
qed

subsection \<open>C7: a backup that fails\<close>

text \<open>
  C7: let the backup of a target that is not skipped return False. Then the target's step
  of the second loop appends exactly one message, the one that names the target; it starts
  borg's prune for the same repository right after borg's create; the loop goes on to the
  remaining targets unless one of the pruning steps raises; and had borg's create ended
  with code 0 instead, the step would have ended in the same way, with the same exception
  or none, after starting the same processes, and without the message.
\<close>

theorem backup_failure_recoverable:
  assumes failed: "backup sys name config (snapshot config) s = (Inr False, s1)"
    and selected: "\<not> skipped a name"
  shows "\<exists>r s' b ex n rest.
       let create = \<lparr>command = backup_command b ex n,
                      cwd = Some (backup_cwd config (snapshot config)),
                      BORG_REPO = Some (repository config)\<rparr>;
           prune = \<lparr>command = prune_command b n, cwd = None,
                     BORG_REPO = Some (repository config)\<rparr>
       in borg config = Some b \<and> excludes config = Some ex \<and> nice config = Some n
        \<and> phase2_target sys a now (name, config) s = (r, s')
        \<and> messages s' = messages s @ [backup_failed_message name]
        \<and> calls s' = calls s @ [create, prune] @ rest
        \<and> phase2 sys a now ((name, config) # targets) s
             = (case r of Inl e \<Rightarrow> (Inl e, s') | Inr u \<Rightarrow> phase2 sys a now targets s')
        \<and> (\<forall>ok. returncode ok = 0 \<longrightarrow>
              (\<exists>s''. phase2_target (sys\<lparr>run := (run sys)(create := Inr ok)\<rparr>) a now
                        (name, config) s = (r, s'')
                    \<and> calls s'' = calls s' \<and> messages s'' = messages s))"
proof -
  from backup_FalseD [OF failed] obtain b ex n res where
    cfg: "borg config = Some b" "excludes config = Some ex" "nice config = Some n"
    and res: "run sys \<lparr>command = backup_command b ex n,
                        cwd = Some (backup_cwd config (snapshot config)),
                        BORG_REPO = Some (repository config)\<rparr> = Inr res"
      "returncode res \<noteq> 0"
    and s1: "messages s1 = messages s"
      "calls s1 = calls s @ [\<lparr>command = backup_command b ex n,
                                cwd = Some (backup_cwd config (snapshot config)),
                                BORG_REPO = Some (repository config)\<rparr>]"
    by blast
  define create where "create = \<lparr>command = backup_command b ex n,
                                   cwd = Some (backup_cwd config (snapshot config)),
                                   BORG_REPO = Some (repository config)\<rparr>"
  define prune where "prune = \<lparr>command = prune_command b n, cwd = None,
                                 BORG_REPO = Some (repository config)\<rparr>"
  from prune_steps_emit [OF cfg(1,3)] obtain r rest where
    tail: "\<forall>s. bind (prune_backups sys name config) (\<lambda>_. prune_snapshots_step sys a now config) s
             = (r, s\<lparr>calls := calls s @ [prune] @ rest\<rparr>)"
    unfolding prune_def by blast
  define s2 where "s2 = s1\<lparr>messages := messages s1 @ [backup_failed_message name],
                            warnings := warnings s1 @ [Text (backup_failed_message name)]\<rparr>"
  define s' where "s' = s2\<lparr>calls := calls s2 @ [prune] @ rest\<rparr>"
  have target: "phase2_target sys a now (name, config) s = (r, s')"
    unfolding phase2_target_unfold s'_def s2_def
    using tail
    by (simp add: bind_Inr [of "backup sys name config (snapshot config)" s False s1, OF failed]
          bind_Inr [of "bind (record_message (backup_failed_message name))
                          (\<lambda>_. warn (Text (backup_failed_message name)))" s1 "()"
                       "s1\<lparr>messages := messages s1 @ [backup_failed_message name],
                            warnings := warnings s1 @ [Text (backup_failed_message name)]\<rparr>"]
          bind_def [of "record_message (backup_failed_message name)"] record_message_def warn_def)
  have msgs: "messages s' = messages s @ [backup_failed_message name]"
    by (simp add: s'_def s2_def s1)
  have cls: "calls s' = calls s @ [create, prune] @ rest"
    by (simp add: s'_def s2_def s1 create_def)
  have loop: "phase2 sys a now ((name, config) # targets) s
           = (case r of Inl e \<Rightarrow> (Inl e, s') | Inr u \<Rightarrow> phase2 sys a now targets s')"
    using selected target by (simp add: bind_def split: sum.splits)
  have other: "\<exists>s''. phase2_target (sys\<lparr>run := (run sys)(create := Inr ok)\<rparr>) a now (name, config) s
                     = (r, s'')
                 \<and> calls s'' = calls s' \<and> messages s'' = messages s"
    if ok: "returncode ok = 0" for ok
  proof -
    let ?sys = "sys\<lparr>run := (run sys)(create := Inr ok)\<rparr>"
    have agree: "\<forall>i. cwd i = None \<longrightarrow> run ?sys i = run sys i"
      by (auto simp: create_def)
    have "run ?sys \<lparr>command = backup_command b ex n,
                        cwd = Some (backup_cwd config (snapshot config)),
                        BORG_REPO = Some (repository config)\<rparr> = Inr ok"
      by (simp add: create_def)
    from backup_succeeds [OF cfg this ok, of name s] obtain t1 where
      t1: "backup ?sys name config (snapshot config) s = (Inr True, t1)"
        "messages t1 = messages s" "calls t1 = calls s @ [create]"
      unfolding create_def by blast
    have tail': "bind (prune_backups ?sys name config) (\<lambda>_. prune_snapshots_step ?sys a now config)
                 = bind (prune_backups sys name config) (\<lambda>_. prune_snapshots_step sys a now config)"
      by (simp add: prune_backups_agree [OF agree] prune_snapshots_step_agree [OF _ agree])
    have "phase2_target ?sys a now (name, config) s = (r, t1\<lparr>calls := calls t1 @ [prune] @ rest\<rparr>)"
      unfolding phase2_target_unfold
      using tail
      by (simp add: bind_Inr [of "backup ?sys name config (snapshot config)" s True t1, OF t1(1)]
            bind_return tail')
    with t1 cls show ?thesis by simp
  qed
  from target msgs cls loop other cfg show ?thesis
    unfolding Let_def create_def prune_def
    by (intro exI [of _ r] exI [of _ s'] exI [of _ b] exI [of _ ex] exI [of _ n]
          exI [of _ rest]) simp
qed

text \<open>
  An instance: an ext4 target whose backup ends with code 2 while every other process ends
  with code 0.
\<close>

theorem backup_failure_recoverable_witness:
  "let sys = \<lparr>disk_partitions = [], is_mountpoint = (\<lambda>_. True), realpath = (\<lambda>p. p),
              listdir = (\<lambda>_. []),
              run = (\<lambda>i. Inr \<lparr>returncode = (if cwd i = None then 0 else 2), stdout = []\<rparr>),
              re_match = (\<lambda>_ _. False), int_of_suffix = (\<lambda>_. None)\<rparr>;
       config = \<lparr>mountpoint = ''/home'', repository = ''/backup/home'', excludes = Some [],
                 fstype = Some ''ext4'', borg = Some ''borg'', nice = Some False,
                 subvolume = None, subvolume_name = None, snapshot = None\<rparr>;
       a = \<lparr>arg_backup_only = None, arg_snapshot_dir = ''/@snapshots'', arg_with_borg = ''borg'',
            arg_with_btrfs = ''/usr/bin/btrfs'', arg_nice = False, arg_backup_dir = ''/backup''\<rparr>
   in fst (backup sys ''home'' config (snapshot config) initial) = Inr False
      \<and> \<not> skipped a ''home''
      \<and> fst (phase2_target sys a 0 (''home'', config) initial) = Inr ()
      \<and> messages (snd (phase2_target sys a 0 (''home'', config) initial))
           = [backup_failed_message ''home'']
      \<and> map cwd (calls (snd (phase2_target sys a 0 (''home'', config) initial)))
           = [Some ''/home'', None]"
proof -
  define sys where "sys = \<lparr>disk_partitions = [], is_mountpoint = (\<lambda>_. True), realpath = (\<lambda>p. p),
              listdir = (\<lambda>_. []),
              run = (\<lambda>i. Inr \<lparr>returncode = (if cwd i = None then 0 else 2), stdout = []\<rparr>),
              re_match = (\<lambda>_ _. False), int_of_suffix = (\<lambda>_. None)\<rparr>"
  define config where "config = \<lparr>mountpoint = ''/home'', repository = ''/backup/home'',
                 excludes = Some [],
                 fstype = Some ''ext4'', borg = Some ''borg'', nice = Some False,
                 subvolume = None, subvolume_name = None, snapshot = None\<rparr>"
  define a where "a = \<lparr>arg_backup_only = None, arg_snapshot_dir = ''/@snapshots'',
            arg_with_borg = ''borg'',
            arg_with_btrfs = ''/usr/bin/btrfs'', arg_nice = False, arg_backup_dir = ''/backup''\<rparr>"
  have b: "fst (backup sys ''home'' config (snapshot config) initial) = Inr False"
    by (simp add: sys_def config_def backup_def bind_def warn_def return_def lookup_def
          run_process_def Let_def)
  then have failed: "backup sys ''home'' config (snapshot config) initial
                       = (Inr False, snd (backup sys ''home'' config (snapshot config) initial))"
    by (simp add: prod_eq_iff)
  have selected: "\<not> skipped a ''home''" by (simp add: skipped_def a_def)
  have run: "phase2_target sys a 0 (''home'', config) initial
        = (Inr (), \<lparr>messages = [backup_failed_message ''home''],
                    warnings = [Text (not_snapshotted_warning ''/home''),
                                Exited (backup_command ''borg'' [] False) 2,
                                Text (backup_failed_message ''home'')],
                    calls = [\<lparr>command = backup_command ''borg'' [] False, cwd = Some ''/home'',
                               BORG_REPO = Some ''/backup/home''\<rparr>,
                             \<lparr>command = prune_command ''borg'' False, cwd = None,
                               BORG_REPO = Some ''/backup/home''\<rparr>]\<rparr>)"
    by (simp add: phase2_target_def prune_snapshots_step_def prune_backups_def
          sys_def config_def a_def backup_def bind_def warn_def return_def lookup_def
          run_process_def record_message_def Let_def initial_def snapshotable_fstypes_def)
  from backup_failure_recoverable [OF failed selected, of 0 "[]", unfolded Let_def] obtain r s' where
    "phase2_target sys a 0 (''home'', config) initial = (r, s')"
    "messages s' = messages initial @ [backup_failed_message ''home'']"
    by blast
  with run b selected show ?thesis
    unfolding Let_def sys_def [symmetric] config_def [symmetric] a_def [symmetric]
    by (auto simp: initial_def)
qed

subsection \<open>C8: a filesystem that cannot be snapshotted\<close>




subsection \<open>C9: the filesystem type of a mount point\<close>

text \<open>
  C9: \<^const>\<open>filesystem_type\<close> raises a \<^verbatim>\<open>RuntimeError\<close> when the number of partitions
  mounted at exactly the given mount point is not one, that is, zero or more than one, and
  returns the filesystem type of the partition when there is exactly one. The exception
  ends the target's step of the first loop, and with it the run.
\<close>

theorem filesystem_type_unique_match:
  "(length (filter (\<lambda>p. partition_mountpoint p = mp) (disk_partitions sys)) \<noteq> 1 \<longrightarrow>
      (\<exists>msg. filesystem_type sys mp = Inl (RuntimeError msg)))
   \<and> (\<forall>p. filter (\<lambda>p. partition_mountpoint p = mp) (disk_partitions sys) = [p] \<longrightarrow>
      filesystem_type sys mp = Inr (partition_fstype p))
   \<and> (\<forall>e. filesystem_type sys (mountpoint config) = Inl e \<longrightarrow>
      phase1_target sys a now (name, config) s = (Inl e, s))"
  by (simp add: filesystem_type_def phase1_target_unclassified)

text \<open>An instance: two partitions, one of them at \<^verbatim>\<open>/home\<close>.\<close>

theorem filesystem_type_unique_match_witness:
  "filesystem_type
     \<lparr>disk_partitions = [\<lparr>partition_mountpoint = ''/'', partition_fstype = ''btrfs''\<rparr>,
                          \<lparr>partition_mountpoint = ''/home'', partition_fstype = ''ext4''\<rparr>],
      is_mountpoint = (\<lambda>_. True), realpath = (\<lambda>p. p), listdir = (\<lambda>_. []),
      run = (\<lambda>i. Inr \<lparr>returncode = 0, stdout = []\<rparr>),
      re_match = (\<lambda>_ _. False), int_of_suffix = (\<lambda>_. None)\<rparr> ''/home'' = Inr ''ext4''"
  using filesystem_type_unique_match
    [of "''/home''"
        "\<lparr>disk_partitions = [\<lparr>partition_mountpoint = ''/'', partition_fstype = ''btrfs''\<rparr>,
                          \<lparr>partition_mountpoint = ''/home'', partition_fstype = ''ext4''\<rparr>],
      is_mountpoint = (\<lambda>_. True), realpath = (\<lambda>p. p), listdir = (\<lambda>_. []),
      run = (\<lambda>i. Inr \<lparr>returncode = 0, stdout = []\<rparr>),
      re_match = (\<lambda>_ _. False), int_of_suffix = (\<lambda>_. None)\<rparr>"]
  by simp

subsection \<open>C10: targets that are not positive\<close>

text \<open>
  C10: for a target that is zero or negative \<^const>\<open>closest\<close> returns nothing, whatever
  the pool; what it returns is strictly positive; so every kept timestamp is strictly
  positive, and a slot whose target is zero or negative ends the selection.
\<close>

theorem nonpositive_target_selects_nothing:
  "(target \<le> 0 \<longrightarrow> closest target pool = None)
   \<and> (closest target pool = Some c \<longrightarrow> 0 < c)
   \<and> (\<forall>t\<in>set (keep_timestamps now ts). 0 < t)
   \<and> (anchor - time_intervals w \<le> 0 \<longrightarrow> keep_loop anchor (w # ws) pool keep = keep)"
proof (intro conjI impI)
  show none: "closest target pool = None" if "target \<le> 0" for target
    using that by (auto simp: closest_None_iff)
  show "0 < c" if "closest target pool = Some c"
    using closest_positive [OF that] by simp
  show "\<forall>t\<in>set (keep_timestamps now ts). 0 < t"
    unfolding keep_timestamps_def select_keep_def by (rule keep_loop_positive)
  show "keep_loop anchor (w # ws) pool keep = keep" if "anchor - time_intervals w \<le> 0"
    using none [OF that] by (rule keep_loop_step_None)
qed

theorem nonpositive_target_selects_nothing_witness:
  "(0::int) \<le> 0 \<and> closest 0 [1, 5, -3] = None
   \<and> closest 10 [1, 5, -3] = Some 5 \<and> (0::int) < 5
   \<and> 86400 - time_intervals Day \<le> 0
   \<and> keep_loop 86400 (Day # [Week]) [1, 5] [] = []"
proof -
  have sel: "closest 10 [1, 5, -3] = Some 5" by (simp add: closest_def)
  have le: "86400 - time_intervals Day \<le> 0" by simp
  from nonpositive_target_selects_nothing [where target = 0 and pool = "[1, 5, -3]"]
  have "closest 0 [1, 5, -3] = None" by simp
  moreover from nonpositive_target_selects_nothing [where target = 10 and pool = "[1, 5, -3]" and c = 5] sel
  have "(0::int) < 5" by blast
  moreover from nonpositive_target_selects_nothing
      [where anchor = 86400 and w = Day and ws = "[Week]" and pool = "[1, 5]" and keep = "[]"] le
  have "keep_loop 86400 (Day # [Week]) [1, 5] [] = []" by blast
  ultimately show ?thesis using sel le by simp
qed

end
